theory Spec2Isabelle
  imports Main
begin

section \<open>Labels\<close>

text \<open>
  The label types of the repository (\<open>UnsignedLabel\<close>, \<open>SignedLabel\<close>, \<open>SavedLabel\<close>).
  An optional or nullish field of the TypeScript type is an \<open>option\<close>: \<open>None\<close> is
  ``absent, undefined or null''. A \<open>Uint8Array\<close> is a list of byte values.
\<close>

type_synonym bytes = "nat list"

record label =
  cts :: string
  src :: string
  uri :: string
  val :: string
  cid :: "string option"
  exp :: "string option"
  neg :: "bool option"
  ver :: "nat option"
  sig :: "bytes option"

text \<open>\<open>SavedLabel = SignedLabel & { id: number }\<close>: the id next to the label it numbers.\<close>

record saved_label =
  id_of :: nat
  label_of :: label

text \<open>\<open>CreateLabelData\<close>, the argument of \<open>createLabel\<close>.\<close>

record create_label_data =
  d_val :: string
  d_uri :: string
  d_cid :: "string option"
  d_neg :: "bool option"
  d_src :: "string option"
  d_cts :: "string option"
  d_exp :: "string option"

section \<open>Signing\<close>

text \<open>
  Modelled from the spec: \<open>labelIsSigned\<close> of \<open>util/labels\<close>, which is not among the
  source files. The spec's words: the input ``already carries a non-empty \<open>sig\<close>''.
\<close>

definition labelIsSigned :: "label \<Rightarrow> bool" where
  "labelIsSigned l = (case sig l of None \<Rightarrow> False | Some s \<Rightarrow> s \<noteq> [])"

text \<open>
  Modelled from the spec: \<open>signLabel\<close> of \<open>util/labels\<close>, which is not among the source
  files. The spec's words: ``compute a canonical byte encoding of the unsigned fields
  and produce a signature using the process's private signing key; attach it as
  \<open>sig\<close>''. The signature primitive \<open>k256\<close> (key, unsigned fields) is a parameter.
\<close>

definition signLabel :: "(bytes \<Rightarrow> label \<Rightarrow> bytes) \<Rightarrow> label \<Rightarrow> bytes \<Rightarrow> label" where
  "signLabel k256 l key = l\<lparr>sig := Some (k256 key (l\<lparr>sig := None\<rparr>))\<rparr>"

text \<open>
  The sign step of \<open>LabelerServer.saveLabel\<close>:
  \<^verbatim>\<open>const signed = labelIsSigned(label) ? label : signLabel(label, this.signingKey);\<close>
\<close>

definition sign_step :: "(bytes \<Rightarrow> label \<Rightarrow> bytes) \<Rightarrow> bytes \<Rightarrow> label \<Rightarrow> label" where
  "sign_step k256 key l = (if labelIsSigned l then l else signLabel k256 l key)"

section \<open>The label store (\<open>DefaultDbProvider\<close>)\<close>

text \<open>
  Errors are values. \<open>XRPCError status kind description\<close> is the \<open>XRPCError\<close> of the
  source, \<open>Error msg\<close> a plain \<open>Error\<close>, \<open>SqliteError\<close> an exception thrown by the storage
  engine itself.
\<close>

datatype error = XRPCError nat string string | Error string | SqliteError

text \<open>
  The storage engine is an external collaborator. What it does on an \<open>INSERT\<close> is an
  input of the model: \<open>engine\<close> lists the outcomes of the coming executions of
  \<open>stmt.run\<close> (the head is consumed by each execution; the empty list means that the
  engine inserts). A failed statement leaves the table as it was.

  The table \<open>labels\<close> has the schema of the constructor: \<open>id INTEGER PRIMARY KEY
  AUTOINCREMENT\<close>, so the engine gives a new row the id one above the largest id the
  table ever held, which it keeps in \<open>sqlite_sequence\<close>. Ids are natural numbers
  (\<open>Number(result.lastInsertRowid)\<close> is exact below \<open>2^53\<close>).
\<close>

datatype run_outcome = Inserted | NoChange | Throws

record db_provider =
  labels :: "saved_label list"
  sqlite_sequence :: nat
  engine :: "run_outcome list"

text \<open>\<open>new DefaultDbProvider(dbPath)\<close> on a fresh file: \<open>CREATE TABLE IF NOT EXISTS labels\<close>.\<close>

definition DefaultDbProvider :: "run_outcome list \<Rightarrow> db_provider" where
  "DefaultDbProvider script = \<lparr>labels = [], sqlite_sequence = 0, engine = script\<rparr>"

text \<open>\<open>SELECT MAX(id) AS id FROM labels\<close>: \<open>NULL\<close> (here \<open>None\<close>) on an empty table.\<close>

definition max_id :: "db_provider \<Rightarrow> nat option" where
  "max_id d = (case labels d of [] \<Rightarrow> None
     | r # rs \<Rightarrow> Some (fold max (map id_of rs) (id_of r)))"

definition next_rowid :: "db_provider \<Rightarrow> nat" where
  "next_rowid d =
     Suc (max (sqlite_sequence d) (case max_id d of None \<Rightarrow> 0 | Some m \<Rightarrow> m))"

text \<open>
  The row an \<open>INSERT\<close> stores: the columns \<open>src, uri, cid, val, neg, cts, exp, sig\<close>, with
  \<open>neg ? 1 : 0\<close> for \<open>neg\<close>; the table has no column for \<open>ver\<close>.
\<close>

definition insert_row :: "db_provider \<Rightarrow> label \<Rightarrow> (error + nat) \<times> db_provider" where
  "insert_row d l =
     (let n = next_rowid d;
          row = \<lparr>id_of = n, label_of = l\<lparr>neg := Some (neg l = Some True), ver := None\<rparr>\<rparr>
      in (Inr n, d\<lparr>labels := labels d @ [row], sqlite_sequence := n\<rparr>))"

text \<open>
  \<open>DefaultDbProvider.saveLabel\<close>: \<open>stmt.run\<close>, then
  \<^verbatim>\<open>if (!result.changes) throw new Error("Failed to insert label")\<close>, then the new id.
\<close>

definition db_saveLabel :: "db_provider \<Rightarrow> label \<Rightarrow> (error + nat) \<times> db_provider" where
  "db_saveLabel d l =
     (case engine d of
        [] \<Rightarrow> insert_row d l
      | out # rest \<Rightarrow>
          (case out of
             Inserted \<Rightarrow> insert_row (d\<lparr>engine := rest\<rparr>) l
           | NoChange \<Rightarrow> (Inl (Error ''Failed to insert label''), d\<lparr>engine := rest\<rparr>)
           | Throws \<Rightarrow> (Inl SqliteError, d\<lparr>engine := rest\<rparr>)))"

text \<open>A sequence of \<open>saveLabel\<close> calls on the store, with the result of each call.\<close>

fun appends :: "db_provider \<Rightarrow> label list \<Rightarrow> (error + nat) list \<times> db_provider" where
  "appends d [] = ([], d)"
| "appends d (l # ls) =
     (case db_saveLabel d l of (r, d') \<Rightarrow>
        (case appends d' ls of (rs, d'') \<Rightarrow> (r # rs, d'')))"

text \<open>The ids that the successful calls of a sequence returned, in call order.\<close>

fun assigned :: "(error + nat) list \<Rightarrow> nat list" where
  "assigned [] = []"
| "assigned (Inl e # rs) = assigned rs"
| "assigned (Inr n # rs) = n # assigned rs"

subsection \<open>\<open>LIKE\<close>\<close>

text \<open>
  The engine's \<open>LIKE\<close> with no \<open>ESCAPE\<close> clause, as the query of \<open>searchLabels\<close> uses it:
  \<open>%\<close> stands for any run of characters, \<open>_\<close> for any one character, every other
  character (the backslash too) for itself, upper and lower case ASCII letters alike.
  The engine reads the pattern and the text as C strings: both end at their first NUL
  character.
\<close>

definition ascii_lower :: "char \<Rightarrow> char" where
  "ascii_lower c =
     (case map_of (zip ''ABCDEFGHIJKLMNOPQRSTUVWXYZ'' ''abcdefghijklmnopqrstuvwxyz'') c of
        None \<Rightarrow> c | Some l \<Rightarrow> l)"

definition c_string :: "string \<Rightarrow> string" where
  "c_string s = takeWhile (\<lambda>c. c \<noteq> CHR 0x00) s"

fun like_chars :: "string \<Rightarrow> string \<Rightarrow> bool" where
  "like_chars [] [] = True"
| "like_chars [] (c # cs) = False"
| "like_chars (p # ps) [] = (p = CHR ''%'' \<and> like_chars ps [])"
| "like_chars (p # ps) (c # cs) =
     (if p = CHR ''%'' then like_chars ps (c # cs) \<or> like_chars (p # ps) cs
      else if p = CHR ''_'' then like_chars ps cs
      else ascii_lower p = ascii_lower c \<and> like_chars ps cs)"

definition like :: "string \<Rightarrow> string \<Rightarrow> bool" where
  "like p s = like_chars (c_string p) (c_string s)"

subsection \<open>\<open>searchLabels\<close>\<close>

text \<open>\<open>indexOf\<close>: the position of the first occurrence, \<open>None\<close> for JavaScript's \<open>-1\<close>.\<close>

fun indexOf :: "'a \<Rightarrow> 'a list \<Rightarrow> nat option" where
  "indexOf c [] = None"
| "indexOf c (x # xs) = (if x = c then Some 0 else map_option Suc (indexOf c xs))"

text \<open>
  The body of the \<open>uriPatterns.map\<close> callback:
  \<^verbatim>\<open>pattern = pattern.replaceAll(/%/g, "").replaceAll(/_/g, "\\_")\<close>, then the check
  of the first \<open>*\<close>, then \<open>pattern.slice(0, -1) + "%"\<close>.
\<close>

definition escape_pattern :: "string \<Rightarrow> string" where
  "escape_pattern p =
     concat (map (\<lambda>c. if c = CHR ''_'' then [CHR 0x5C, CHR ''_''] else [c])
       (filter (\<lambda>c. c \<noteq> CHR ''%'') p))"

definition like_pattern :: "string \<Rightarrow> error + string" where
  "like_pattern p =
     (let q = escape_pattern p in
      case indexOf (CHR ''*'') q of
        None \<Rightarrow> Inr q
      | Some starIndex \<Rightarrow>
          if starIndex \<noteq> length q - 1
          then Inl (XRPCError 400 ''InvalidRequest''
                 ''Only trailing wildcards are supported in uriPatterns'')
          else Inr (butlast q @ ''%''))"

text \<open>\<open>map\<close> with a callback that may throw: the first pattern that throws ends it.\<close>

fun like_patterns :: "string list \<Rightarrow> error + string list" where
  "like_patterns [] = Inr []"
| "like_patterns (p # ps) =
     (case like_pattern p of
        Inl e \<Rightarrow> Inl e
      | Inr q \<Rightarrow> (case like_patterns ps of Inl e \<Rightarrow> Inl e | Inr qs \<Rightarrow> Inr (q # qs)))"

text \<open>
  The \<open>WHERE\<close> clause is assembled as text:
  \<^verbatim>\<open>WHERE 1 = 1
  ${patterns.length ? "AND " + patterns.map(() => "uri LIKE ?").join(" OR ") : ""}
  ${sources.length ? `AND src IN (...)` : ""}
  ${cursor ? "AND id > ?" : ""}\<close>
  The model keeps the text as a list of tokens, each \<open>?\<close> with the parameter bound to it
  (the parameters are pushed in the order of their placeholders), and evaluates it as
  SQL does: \<open>AND\<close> binds tighter than \<open>OR\<close>, so the clause is a disjunction of
  conjunctions.
\<close>

datatype sql_atom = OneIsOne | UriLike string | SrcIn "string list" | IdGt int

datatype sql_token = Atom sql_atom | TokAnd | TokOr

fun join_or :: "sql_token list \<Rightarrow> sql_token list" where
  "join_or [] = []"
| "join_or [t] = [t]"
| "join_or (t # u # ts) = t # TokOr # join_or (u # ts)"

text \<open>\<open>cursor ? ... : ""\<close>: an absent cursor, \<open>NaN\<close> (both \<open>None\<close>) and \<open>0\<close> are falsy.\<close>

definition where_clause :: "string list \<Rightarrow> string list \<Rightarrow> int option \<Rightarrow> sql_token list" where
  "where_clause patterns sources cursor =
     [Atom OneIsOne]
     @ (if patterns \<noteq> [] then TokAnd # join_or (map (\<lambda>p. Atom (UriLike p)) patterns) else [])
     @ (if sources \<noteq> [] then [TokAnd, Atom (SrcIn sources)] else [])
     @ (case cursor of None \<Rightarrow> []
        | Some c \<Rightarrow> if c \<noteq> 0 then [TokAnd, Atom (IdGt c)] else [])"

fun eval_atom :: "saved_label \<Rightarrow> sql_atom \<Rightarrow> bool" where
  "eval_atom r OneIsOne = True"
| "eval_atom r (UriLike p) = like p (uri (label_of r))"
| "eval_atom r (SrcIn ss) = (src (label_of r) \<in> set ss)"
| "eval_atom r (IdGt c) = (c < int (id_of r))"

fun split_or :: "sql_token list \<Rightarrow> sql_token list list" where
  "split_or [] = [[]]"
| "split_or (TokOr # ts) = [] # split_or ts"
| "split_or (t # ts) = (case split_or ts of [] \<Rightarrow> [[t]] | c # cs \<Rightarrow> (t # c) # cs)"

fun eval_token :: "saved_label \<Rightarrow> sql_token \<Rightarrow> bool" where
  "eval_token r (Atom a) = eval_atom r a"
| "eval_token r t = True"

definition eval_where :: "sql_token list \<Rightarrow> saved_label \<Rightarrow> bool" where
  "eval_where ts r = list_ex (list_all (eval_token r)) (split_or ts)"

text \<open>\<open>LIMIT ?\<close>: a negative limit is no limit.\<close>

definition sql_limit :: "int \<Rightarrow> 'a list \<Rightarrow> 'a list" where
  "sql_limit n rows = (if n < 0 then rows else take (nat n) rows)"

text \<open>\<open>SELECT * FROM labels WHERE ... ORDER BY id ASC LIMIT ?\<close>.\<close>

definition select_labels :: "db_provider \<Rightarrow> sql_token list \<Rightarrow> int \<Rightarrow> saved_label list" where
  "select_labels d ts n = sql_limit n (sort_key id_of (filter (eval_where ts) (labels d)))"

definition searchLabels ::
  "db_provider \<Rightarrow> int option \<Rightarrow> int \<Rightarrow> string list \<Rightarrow> string list \<Rightarrow> error + saved_label list" where
  "searchLabels d cursor limit uriPatterns sources =
     (case (if ''*'' \<in> set uriPatterns then Inr [] else like_patterns uriPatterns) of
        Inl e \<Rightarrow> Inl e
      | Inr patterns \<Rightarrow> Inr (select_labels d (where_clause patterns sources cursor) limit))"

subsection \<open>\<open>isCursorInTheFuture\<close> and \<open>iterateLabels\<close>\<close>

text \<open>
  A cursor is a JavaScript number made by \<open>parseInt\<close>: an integer, or \<open>NaN\<close> (\<open>None\<close>).
  \<open>cursor > latest.id\<close>: \<open>NaN\<close> is greater than nothing, and the \<open>null\<close> of an empty table
  compares as \<open>0\<close>.
\<close>

definition isCursorInTheFuture :: "db_provider \<Rightarrow> int option \<Rightarrow> bool" where
  "isCursorInTheFuture d cursor =
     (case cursor of
        None \<Rightarrow> False
      | Some c \<Rightarrow> (case max_id d of None \<Rightarrow> 0 | Some m \<Rightarrow> int m) < c)"

text \<open>
  \<open>iterateLabels\<close> returns the iterator of \<open>stmt.iterate(cursor)\<close> over
  \<open>SELECT * FROM labels WHERE id > ? ORDER BY id ASC\<close>. The iterator of the store's
  binding reads nothing when it is made. It keeps a buffer of 100 rows and an index
  into it, 100 at first; a \<open>next()\<close> that finds the index at 100 reads the next rows
  of the query into the buffer, up to 100 of them, from the table as it is then, and
  sets the index to 0; \<open>next()\<close> then gives the row at the index and moves on, or ends
  the scan when the buffer has no row there. So a scan of up to 99 rows reads the table
  once, at its first \<open>next()\<close>, and does not see what is appended later.

  \<open>nextRows\<close> holds the rows of the buffer from the index on, \<open>position\<close> the id above
  which the query has rows left to read (\<open>None\<close>: the cursor was \<open>NaN\<close>, which is bound as
  \<open>NULL\<close> and selects nothing).
\<close>

record label_iter =
  nextRows :: "saved_label list"
  nextRowIndex :: nat
  position :: "int option"

definition iterateLabels :: "int option \<Rightarrow> label_iter" where
  "iterateLabels cursor = \<lparr>nextRows = [], nextRowIndex = 100, position = cursor\<rparr>"

definition rowsNext :: "db_provider \<Rightarrow> label_iter \<Rightarrow> label_iter" where
  "rowsNext d it =
     (case position it of
        None \<Rightarrow> it\<lparr>nextRows := [], nextRowIndex := 0\<rparr>
      | Some c \<Rightarrow>
          (let rows = take 100 (filter (\<lambda>r. c < int (id_of r)) (sort_key id_of (labels d)))
           in it\<lparr>nextRows := rows, nextRowIndex := 0,
                 position := (if rows = [] then Some c else Some (int (id_of (last rows))))\<rparr>))"

definition iter_next :: "db_provider \<Rightarrow> label_iter \<Rightarrow> saved_label option \<times> label_iter" where
  "iter_next d it =
     (let it' = (if nextRowIndex it = 100 then rowsNext d it else it) in
      case nextRows it' of
        [] \<Rightarrow> (None, it')
      | r # rest \<Rightarrow> (Some r, it'\<lparr>nextRows := rest, nextRowIndex := Suc (nextRowIndex it')\<rparr>))"

section \<open>The labeler server (\<open>LabelerServer\<close>)\<close>

text \<open>
  A WebSocket handle (\<open>WSContext\<close>) is a number. The wire codec (\<open>frameToBytes\<close>,
  \<open>formatLabel\<close>) is an external collaborator: the model records the logical frame that
  is handed to \<open>frameToBytes\<close> and then to \<open>ws.send\<close>.
\<close>

type_synonym ws = nat

datatype frame = MessageFrame nat label | ErrorFrame string string

text \<open>
  The state of the server object and of what it drives: the fields \<open>did\<close>, \<open>auth\<close>,
  \<open>signingKey\<close>, \<open>db\<close> and \<open>connections\<close> (a \<open>Map\<close> from an NSID to a \<open>Set\<close> of handles,
  kept in insertion order), the collaborators it calls (\<open>k256Sign\<close>: the signature
  primitive; \<open>verifyJwt\<close>: the authenticator, given token, audience and method;
  \<open>now\<close>: the reading of \<open>new Date().toISOString()\<close>), and for every handle the
  frames sent to it and whether it was closed.
\<close>

record server =
  did :: string
  auth :: "string \<Rightarrow> bool"
  signingKey :: bytes
  k256Sign :: "bytes \<Rightarrow> label \<Rightarrow> bytes"
  verifyJwt :: "string \<Rightarrow> string \<Rightarrow> string \<Rightarrow> error + string"
  now :: string
  db :: db_provider
  connections :: "string \<Rightarrow> ws list option"
  sent :: "ws \<Rightarrow> frame list"
  closed :: "ws \<Rightarrow> bool"

definition subscribeLabels :: string where
  "subscribeLabels = ''com.atproto.label.subscribeLabels''"

definition ws_send :: "server \<Rightarrow> ws \<Rightarrow> frame \<Rightarrow> server" where
  "ws_send s w f = s\<lparr>sent := (sent s)(w := sent s w @ [f])\<rparr>"

definition ws_close :: "server \<Rightarrow> ws \<Rightarrow> server" where
  "ws_close s w = s\<lparr>closed := (closed s)(w := True)\<rparr>"

text \<open>The handles registered for an NSID: \<open>this.connections.get(nsid)\<close>, none if absent.\<close>

definition subscribers :: "server \<Rightarrow> string \<Rightarrow> ws list" where
  "subscribers s nsid = (case connections s nsid of None \<Rightarrow> [] | Some subs \<Rightarrow> subs)"

definition addSubscription :: "server \<Rightarrow> string \<Rightarrow> ws \<Rightarrow> server" where
  "addSubscription s nsid w =
     (let subs = subscribers s nsid;
          subs' = (if w \<in> set subs then subs else subs @ [w])
      in s\<lparr>connections := (connections s)(nsid \<mapsto> subs')\<rparr>)"

definition removeSubscription :: "server \<Rightarrow> string \<Rightarrow> ws \<Rightarrow> server" where
  "removeSubscription s nsid w =
     (case connections s nsid of
        None \<Rightarrow> s
      | Some subs \<Rightarrow>
          (let subs' = removeAll w subs in
           if subs' = [] then s\<lparr>connections := (connections s)(nsid := None)\<rparr>
           else s\<lparr>connections := (connections s)(nsid \<mapsto> subs')\<rparr>))"

text \<open>\<open>emitLabel\<close>: one \<open>#labels\<close> message frame to every registered handle.\<close>

definition emitLabel :: "server \<Rightarrow> nat \<Rightarrow> label \<Rightarrow> server" where
  "emitLabel s seq l =
     foldl (\<lambda>s' w. ws_send s' w (MessageFrame seq l)) s (subscribers s subscribeLabels)"

subsection \<open>\<open>saveLabel\<close>, \<open>createLabel\<close>, \<open>createLabels\<close>\<close>

text \<open>
  \<open>saveLabel\<close> is an \<open>async\<close> function with one \<open>await\<close>:
  \<^verbatim>\<open>const id = await this.db.saveLabel(signed);\<close>
  \<open>saveLabel_begin\<close> is the code up to it (sign, insert), \<open>saveLabel_end\<close> the code
  after it (\<open>emitLabel\<close>, \<open>return { id, ...signed }\<close>); \<open>saveLabel\<close> runs both with
  nothing in between.
\<close>

definition saveLabel_begin :: "server \<Rightarrow> label \<Rightarrow> (error + nat \<times> label) \<times> server" where
  "saveLabel_begin s l =
     (let signed = sign_step (k256Sign s) (signingKey s) l in
      case db_saveLabel (db s) signed of
        (Inl e, d) \<Rightarrow> (Inl e, s\<lparr>db := d\<rparr>)
      | (Inr n, d) \<Rightarrow> (Inr (n, signed), s\<lparr>db := d\<rparr>))"

definition saveLabel_end :: "server \<Rightarrow> nat \<times> label \<Rightarrow> saved_label \<times> server" where
  "saveLabel_end s p =
     (case p of (n, signed) \<Rightarrow> (\<lparr>id_of = n, label_of = signed\<rparr>, emitLabel s n signed))"

definition saveLabel :: "server \<Rightarrow> label \<Rightarrow> (error + saved_label) \<times> server" where
  "saveLabel s l =
     (case saveLabel_begin s l of
        (Inl e, s') \<Rightarrow> (Inl e, s')
      | (Inr p, s') \<Rightarrow> (case saveLabel_end s' p of (r, s'') \<Rightarrow> (Inr r, s'')))"

text \<open>
  Modelled from the spec: \<open>excludeNullish\<close> of \<open>util/util\<close>, which is not among the source
  files. The spec's words: it ``strips any explicitly-nullish optional fields''. A
  nullish field is \<open>None\<close> here, which is an absent field already.
\<close>

definition excludeNullish :: "label \<Rightarrow> label" where
  "excludeNullish l = l"

definition createLabel :: "server \<Rightarrow> create_label_data \<Rightarrow> (error + saved_label) \<times> server" where
  "createLabel s data =
     saveLabel s (excludeNullish
       \<lparr>cts = (case d_cts data of None \<Rightarrow> now s | Some c \<Rightarrow> c),
        src = (case d_src data of None \<Rightarrow> did s | Some a \<Rightarrow> a),
        uri = d_uri data, val = d_val data, cid = d_cid data, exp = d_exp data,
        neg = d_neg data, ver = None, sig = None\<rparr>)"

record subject_ref =
  s_uri :: string
  s_cid :: "string option"

record label_vals =
  create :: "string list option"
  negate :: "string list option"

text \<open>
  One \<open>for (const val of ...)\<close> loop of \<open>createLabels\<close>: \<open>ng\<close> is the \<open>neg\<close> field of the data
  it passes (absent in the first loop, \<open>true\<close> in the second), \<open>acc\<close> is \<open>createdLabels\<close>.
  An error of \<open>createLabel\<close> ends the loop and the function.
\<close>

fun createLabels_loop ::
  "server \<Rightarrow> subject_ref \<Rightarrow> bool option \<Rightarrow> string list \<Rightarrow> saved_label list
     \<Rightarrow> (error + saved_label list) \<times> server" where
  "createLabels_loop s subj ng [] acc = (Inr acc, s)"
| "createLabels_loop s subj ng (v # vs) acc =
     (case createLabel s \<lparr>d_val = v, d_uri = s_uri subj, d_cid = s_cid subj, d_neg = ng,
                          d_src = None, d_cts = None, d_exp = None\<rparr> of
        (Inl e, s') \<Rightarrow> (Inl e, s')
      | (Inr r, s') \<Rightarrow> createLabels_loop s' subj ng vs (acc @ [r]))"

definition createLabels ::
  "server \<Rightarrow> subject_ref \<Rightarrow> label_vals \<Rightarrow> (error + saved_label list) \<times> server" where
  "createLabels s subj labs =
     (case (case create labs of
              None \<Rightarrow> (Inr [], s)
            | Some cs \<Rightarrow> createLabels_loop s subj None cs []) of
        (Inl e, s') \<Rightarrow> (Inl e, s')
      | (Inr created, s') \<Rightarrow>
          (case negate labs of
             None \<Rightarrow> (Inr created, s')
           | Some ns \<Rightarrow> createLabels_loop s' subj (Some True) ns created))"

subsection \<open>\<open>subscribeLabelsHandler\<close>: \<open>onOpen\<close> and \<open>onClose\<close>\<close>

text \<open>
  \<open>onOpen\<close> is an \<open>async\<close> function: it runs until an \<open>await\<close>, and other code of the
  server may run before it goes on. It awaits
  \<^item> the answer of \<open>this.db.isCursorInTheFuture(cursor)\<close>, and
  \<^item> in \<open>for await (... of this.db.iterateLabels(cursor))\<close>, the result of every
    \<open>next()\<close> of the iterator.
  A suspended \<open>onOpen\<close> is the value it waits for, with what it needs to go on.
  (\<open>cursor !== undefined\<close> holds for every result of \<open>parseInt\<close>, so the catch-up branch is
  always taken. Reads of the store and sends do not throw in the model, so the
  \<open>catch\<close> branch of the scan is not reached.)
\<close>

datatype open_task =
    AwaitCheck "int option" bool
  | AwaitNext "saved_label option" label_iter

text \<open>The start of \<open>onOpen\<close>, up to the first \<open>await\<close>.\<close>

definition onOpen_begin :: "server \<Rightarrow> int option \<Rightarrow> open_task" where
  "onOpen_begin s cursor = AwaitCheck cursor (isCursorInTheFuture (db s) cursor)"

text \<open>
  \<open>onOpen\<close> from one \<open>await\<close> to the next, or to its end (\<open>None\<close>): after the check, the
  \<open>FutureCursor\<close> frame, \<open>ws.close()\<close> and \<open>return\<close>, or else the first \<open>next()\<close> of the scan;
  after a \<open>next()\<close> that gave a row, the frame of the row and the following \<open>next()\<close>;
  after the \<open>next()\<close> that gave none, \<open>addSubscription\<close>.
\<close>

fun onOpen_resume :: "server \<Rightarrow> ws \<Rightarrow> open_task \<Rightarrow> server \<times> open_task option" where
  "onOpen_resume s w (AwaitCheck cursor future) =
     (if future
      then (ws_close (ws_send s w (ErrorFrame ''FutureCursor'' ''Cursor is in the future'')) w,
            None)
      else (case iter_next (db s) (iterateLabels cursor) of
              (r, it) \<Rightarrow> (s, Some (AwaitNext r it))))"
| "onOpen_resume s w (AwaitNext (Some row) it) =
     (let s' = ws_send s w (MessageFrame (id_of row) (label_of row)) in
      case iter_next (db s') it of (r, it') \<Rightarrow> (s', Some (AwaitNext r it')))"
| "onOpen_resume s w (AwaitNext None it) = (addSubscription s subscribeLabels w, None)"

definition onClose :: "server \<Rightarrow> ws \<Rightarrow> server" where
  "onClose s w = removeSubscription s subscribeLabels w"

subsection \<open>The event loop\<close>

text \<open>
  The server with its suspended \<open>async\<close> functions: for a handle the \<open>onOpen\<close> that is
  suspended on it, and the \<open>saveLabel\<close> calls that wait to emit. An action is what the
  event loop runs next without interruption: a new connection (\<open>onOpen\<close> up to its first
  \<open>await\<close>), a suspended \<open>onOpen\<close> up to its next \<open>await\<close>, the close of a handle, a call
  of \<open>saveLabel\<close> (up to its \<open>await\<close>), or the rest of a suspended \<open>saveLabel\<close>.

  The methods of a \<open>DbProvider\<close> may return promises (\<open>Promise<number>\<close>,
  \<open>AsyncIterable<SavedLabel>\<close>), which is why the server awaits them; a suspended function
  goes on when the event loop gets to it, in any order with the others. The store
  does its part of a call when the call is made.
\<close>

record runtime =
  srv :: server
  suspended :: "ws \<Rightarrow> open_task option"
  saving :: "(nat \<times> label) list"

datatype action =
    WsOpen ws "int option"
  | ResumeOpen ws
  | WsClose ws
  | SaveLabel label
  | ResumeSave nat

fun step :: "runtime \<Rightarrow> action \<Rightarrow> runtime" where
  "step rt (WsOpen w cursor) = rt\<lparr>suspended := (suspended rt)(w \<mapsto> onOpen_begin (srv rt) cursor)\<rparr>"
| "step rt (ResumeOpen w) =
     (case suspended rt w of
        None \<Rightarrow> rt
      | Some task \<Rightarrow>
          (case onOpen_resume (srv rt) w task of
             (s, task') \<Rightarrow> rt\<lparr>srv := s, suspended := (suspended rt)(w := task')\<rparr>))"
| "step rt (WsClose w) = rt\<lparr>srv := onClose (srv rt) w\<rparr>"
| "step rt (SaveLabel l) =
     (case saveLabel_begin (srv rt) l of
        (Inl e, s) \<Rightarrow> rt\<lparr>srv := s\<rparr>
      | (Inr p, s) \<Rightarrow> rt\<lparr>srv := s, saving := saving rt @ [p]\<rparr>)"
| "step rt (ResumeSave i) =
     (if i < length (saving rt)
      then rt\<lparr>srv := snd (saveLabel_end (srv rt) (saving rt ! i)),
              saving := take i (saving rt) @ drop (Suc i) (saving rt)\<rparr>
      else rt)"

definition run :: "runtime \<Rightarrow> action list \<Rightarrow> runtime" where
  "run rt acts = foldl step rt acts"

text \<open>The sequence numbers of the message frames a handle was sent.\<close>

fun frame_seqs :: "frame list \<Rightarrow> nat list" where
  "frame_seqs [] = []"
| "frame_seqs (MessageFrame n l # fs) = n # frame_seqs fs"
| "frame_seqs (ErrorFrame e m # fs) = frame_seqs fs"

text \<open>Whether a list of actions opens a connection on the handle.\<close>

fun opens :: "ws \<Rightarrow> action list \<Rightarrow> bool" where
  "opens w [] = False"
| "opens w (WsOpen w' c # as) = (w = w' \<or> opens w as)"
| "opens w (a # as) = opens w as"

subsection \<open>\<open>parseAuthHeaderDid\<close> and \<open>emitEventHandler\<close>\<close>

text \<open>
  A request: the \<open>authorization\<close> header, the URL, and the parsed JSON body with the four
  fields the handler reads. \<open>createdBy\<close> is echoed and tested for truthiness only.
\<close>

record mod_event =
  e_type :: string
  createLabelVals :: "string list option"
  negateLabelVals :: "string list option"

record mod_subject =
  t_type :: string
  t_did :: "string option"
  t_uri :: "string option"
  t_cid :: "string option"

record request_body =
  event :: "mod_event option"
  subject :: "mod_subject option"
  subjectBlobCids :: "string list option"
  createdBy :: "string option"

record request =
  authorization :: "string option"
  url :: string
  body :: request_body

record emit_event_output =
  o_id :: nat
  o_event :: mod_event
  o_subject :: mod_subject
  o_subjectBlobCids :: "string list"
  o_createdBy :: string
  o_createdAt :: string

text \<open>
  \<open>!x\<close> for an optional string: absent, \<open>null\<close> and the empty string are falsy.
  \<open>truthy\<close> gives the string when it is not.
\<close>

definition truthy :: "string option \<Rightarrow> string option" where
  "truthy x = (case x of None \<Rightarrow> None | Some v \<Rightarrow> if v = [] then None else Some v)"

text \<open>\<open>s.split(c)\<close> for a one-character separator.\<close>

fun split_on :: "char \<Rightarrow> string \<Rightarrow> string list" where
  "split_on c [] = [[]]"
| "split_on c (x # xs) =
     (if x = c then [] # split_on c xs
      else (case split_on c xs of [] \<Rightarrow> [[x]] | p # ps \<Rightarrow> (x # p) # ps))"

text \<open>\<open>s.replace(pat, "")\<close> for a string \<open>pat\<close>: the first occurrence goes.\<close>

fun remove_first :: "string \<Rightarrow> string \<Rightarrow> string" where
  "remove_first pat [] = []"
| "remove_first pat (x # xs) =
     (if take (length pat) (x # xs) = pat then drop (length pat) (x # xs)
      else x # remove_first pat xs)"

text \<open>
  \<^verbatim>\<open>(req.url || "").split("?")[0].replace("/xrpc/", "").replace(/\/$/, "")\<close>
\<close>

definition nsid_of_url :: "string \<Rightarrow> string" where
  "nsid_of_url u =
     (let a = remove_first ''/xrpc/''
                (case split_on (CHR ''?'') u of [] \<Rightarrow> [] | p # ps \<Rightarrow> p) in
      if a \<noteq> [] \<and> last a = CHR ''/'' then butlast a else a)"

text \<open>
  \<open>const [type, token] = authHeader.split(" ")\<close>: the first two parts, \<open>token\<close> being
  \<open>undefined\<close> when there is no second part.
\<close>

definition parseAuthHeaderDid :: "server \<Rightarrow> request \<Rightarrow> error + string" where
  "parseAuthHeaderDid s req =
     (case truthy (authorization req) of
        None \<Rightarrow> Inl (XRPCError 401 ''AuthRequired'' ''Authorization header is required'')
      | Some authHeader \<Rightarrow>
          (case split_on (CHR '' '') authHeader of
             scheme # token # rest \<Rightarrow>
               if scheme \<noteq> ''Bearer'' \<or> token = []
               then Inl (XRPCError 400 ''MissingJwt'' ''Missing or invalid bearer token'')
               else verifyJwt s token (did s) (nsid_of_url (url req))
           | _ \<Rightarrow> Inl (XRPCError 400 ''MissingJwt'' ''Missing or invalid bearer token'')))"

definition repoRef :: string where
  "repoRef = ''com.atproto.admin.defs#repoRef''"

definition strongRef :: string where
  "strongRef = ''com.atproto.repo.strongRef''"

definition modEventLabel :: string where
  "modEventLabel = ''tools.ozone.moderation.defs#modEventLabel''"

text \<open>\<open>!vals?.length\<close>: an absent and an empty list alike.\<close>

definition no_vals :: "string list option \<Rightarrow> bool" where
  "no_vals vs = (case vs of None \<Rightarrow> True | Some l \<Rightarrow> l = [])"

text \<open>
  \<open>emitEventHandler\<close>, in the order of the source: authentication, authorisation, the
  required fields, the event type, the label values, the subject, \<open>createLabels\<close>, the
  check of its result, the response. (The message of the last error is shortened: the
  source appends the event as JSON.)
\<close>

definition emitEventHandler :: "server \<Rightarrow> request \<Rightarrow> (error + emit_event_output) \<times> server" where
  "emitEventHandler s req =
     (case parseAuthHeaderDid s req of
        Inl e \<Rightarrow> (Inl e, s)
      | Inr actorDid \<Rightarrow>
          if \<not> auth s actorDid then (Inl (XRPCError 401 ''AuthRequired'' ''Unauthorized''), s)
          else
            (case (event (body req), subject (body req), truthy (createdBy (body req))) of
               (Some ev, Some subj, Some creator) \<Rightarrow>
                 if e_type ev \<noteq> modEventLabel
                 then (Inl (XRPCError 400 ''InvalidRequest'' ''Unsupported event type''), s)
                 else if no_vals (createLabelVals ev) \<and> no_vals (negateLabelVals ev)
                 then (Inl (XRPCError 400 ''InvalidRequest''
                              ''Must provide at least one label value''), s)
                 else
                   (case truthy (if t_type subj = repoRef then t_did subj
                                 else if t_type subj = strongRef then t_uri subj
                                 else None) of
                      None \<Rightarrow> (Inl (XRPCError 400 ''InvalidRequest'' ''Invalid subject''), s)
                    | Some u \<Rightarrow>
                        (case createLabels s
                                \<lparr>s_uri = u,
                                 s_cid = (if t_type subj = strongRef then t_cid subj else None)\<rparr>
                                \<lparr>create = createLabelVals ev, negate = negateLabelVals ev\<rparr> of
                           (Inl e, s') \<Rightarrow> (Inl e, s')
                         | (Inr ls, s') \<Rightarrow>
                             (case ls of
                                [] \<Rightarrow> (Inl (Error ''No labels were created''), s')
                              | l # rest \<Rightarrow>
                                  if id_of l = 0
                                  then (Inl (Error ''No labels were created''), s')
                                  else (Inr \<lparr>o_id = id_of l, o_event = ev, o_subject = subj,
                                              o_subjectBlobCids =
                                                (case subjectBlobCids (body req) of
                                                   None \<Rightarrow> [] | Some b \<Rightarrow> b),
                                              o_createdBy = creator,
                                              o_createdAt = now s'\<rparr>, s'))))
             | _ \<Rightarrow> (Inl (XRPCError 400 ''InvalidRequest'' ''Missing required field(s)''), s)))"

section \<open>Invariants and sample values\<close>

text \<open>
  The invariant of a store that started empty and only ever ran \<open>saveLabel\<close>: \<open>n\<close> rows so
  far, with the ids \<open>1, ..., n\<close> in insertion order, and \<open>sqlite_sequence\<close> at \<open>n\<close>.
\<close>

definition store_inv :: "db_provider \<Rightarrow> nat \<Rightarrow> bool" where
  "store_inv d n = (sqlite_sequence d = n \<and> map id_of (labels d) = [1..<Suc n])"

text \<open>Sample values for the concrete instances below.\<close>

definition example_label :: "string \<Rightarrow> label" where
  "example_label v =
     \<lparr>cts = ''2024-01-01T00:00:00.000Z'', src = ''did:plc:labeler'', uri = ''at://x'',
      val = v, cid = Some ''c1'', exp = None, neg = None, ver = None, sig = None\<rparr>"

text \<open>
  The two states of a handle whose \<open>onOpen\<close> found the cursor in the future: the check
  is answered and \<open>onOpen\<close> is suspended on it, and \<open>onOpen\<close> has gone on and refused the
  handle.
\<close>

definition future_frame :: frame where
  "future_frame = ErrorFrame ''FutureCursor'' ''Cursor is in the future''"

definition awaiting_refusal :: "runtime \<Rightarrow> ws \<Rightarrow> bool" where
  "awaiting_refusal rt w =
     (w \<notin> set (subscribers (srv rt) subscribeLabels) \<and> sent (srv rt) w = [] \<and>
      (case suspended rt w of Some (AwaitCheck c future) \<Rightarrow> future | _ \<Rightarrow> False))"

definition refused :: "runtime \<Rightarrow> ws \<Rightarrow> bool" where
  "refused rt w =
     (w \<notin> set (subscribers (srv rt) subscribeLabels) \<and> sent (srv rt) w = [future_frame] \<and>
      closed (srv rt) w \<and> suspended rt w = None)"

text \<open>
  A server right after construction on a fresh database, with nothing suspended, and
  the same after one label was saved and emitted.
\<close>

definition example_server :: server where
  "example_server =
     \<lparr>did = ''did:plc:labeler'', auth = (\<lambda>d. d = ''did:plc:labeler''),
      signingKey = replicate 32 1, k256Sign = (\<lambda>key l. [7]),
      verifyJwt = (\<lambda>token aud nsid. Inr token),
      now = ''2024-01-01T00:00:00.000Z'', db = DefaultDbProvider [],
      connections = (\<lambda>nsid. None), sent = (\<lambda>w. []), closed = (\<lambda>w. False)\<rparr>"

definition boot :: runtime where
  "boot = \<lparr>srv = example_server, suspended = (\<lambda>w. None), saving = []\<rparr>"

definition one_label :: runtime where
  "one_label = run boot [SaveLabel (example_label ''spam''), ResumeSave 0]"

text \<open>
  The values of a batch (an absent list is an empty one), the error \<open>saveLabel\<close> of the
  store ends with for an outcome of the engine other than \<open>Inserted\<close>, and the data that
  a loop of \<open>createLabels\<close> passes to \<open>createLabel\<close>.
\<close>

definition batch_create :: "label_vals \<Rightarrow> string list" where
  "batch_create labs = (case create labs of None \<Rightarrow> [] | Some cs \<Rightarrow> cs)"

definition batch_negate :: "label_vals \<Rightarrow> string list" where
  "batch_negate labs = (case negate labs of None \<Rightarrow> [] | Some ns \<Rightarrow> ns)"

definition engine_error :: "run_outcome \<Rightarrow> error" where
  "engine_error out = (if out = NoChange then Error ''Failed to insert label'' else SqliteError)"

definition loop_data :: "subject_ref \<Rightarrow> bool option \<Rightarrow> string \<Rightarrow> create_label_data" where
  "loop_data subj ng v =
     \<lparr>d_val = v, d_uri = s_uri subj, d_cid = s_cid subj, d_neg = ng,
      d_src = None, d_cts = None, d_exp = None\<rparr>"

text \<open>
  The batch of the spec's example, and a server whose engine inserts once and then throws.
\<close>

definition example_subject :: subject_ref where
  "example_subject = \<lparr>s_uri = ''at://x'', s_cid = Some ''c1''\<rparr>"

definition example_vals :: label_vals where
  "example_vals = \<lparr>create = Some [''spam''], negate = Some [''porn'']\<rparr>"

definition failing_server :: server where
  "failing_server = example_server\<lparr>db := DefaultDbProvider [Inserted, Throws]\<rparr>"

text \<open>
  A pattern without its \<open>%\<close> characters, and the error of a pattern that is not
  supported.
\<close>

definition strip_percent :: "string \<Rightarrow> string" where
  "strip_percent p = filter (\<lambda>c. c \<noteq> CHR ''%'') p"

definition unsupported_pattern :: error where
  "unsupported_pattern =
     XRPCError 400 ''InvalidRequest'' ''Only trailing wildcards are supported in uriPatterns''"

text \<open>
  Three stores made by \<open>saveLabel\<close> calls on an empty store, for the instances of
  \<open>searchLabels\<close>: rows of two sources; the rows \<open>ab\<close> and \<open>a%b\<close>; and the row \<open>a_b\<close> with a
  row that has a backslash and one more character in its place.
\<close>

definition labelled :: "string \<Rightarrow> string \<Rightarrow> label" where
  "labelled u a = (example_label ''spam'')\<lparr>uri := u, src := a, sig := Some [7]\<rparr>"

definition search_store :: db_provider where
  "search_store =
     snd (appends (DefaultDbProvider [])
       [labelled ''at://a'' ''did:plc:other'', labelled ''at://b'' ''did:plc:labeler''])"

definition percent_store :: db_provider where
  "percent_store =
     snd (appends (DefaultDbProvider [])
       [labelled ''ab'' ''did:plc:labeler'', labelled ''a%b'' ''did:plc:labeler''])"

definition underscore_store :: db_provider where
  "underscore_store =
     snd (appends (DefaultDbProvider [])
       [labelled ''a_b'' ''did:plc:labeler'',
        labelled [CHR ''a'', CHR 0x5C, CHR ''x'', CHR ''b''] ''did:plc:labeler''])"

text \<open>
  A moderation event for an account, in a request with the given \<open>authorization\<close> header
  and \<open>createdBy\<close> field.
\<close>

definition example_event :: mod_event where
  "example_event =
     \<lparr>e_type = modEventLabel, createLabelVals = Some [''spam''], negateLabelVals = None\<rparr>"

definition example_target :: mod_subject where
  "example_target =
     \<lparr>t_type = repoRef, t_did = Some ''did:plc:someone'', t_uri = None, t_cid = None\<rparr>"

definition example_request :: "string option \<Rightarrow> string option \<Rightarrow> request" where
  "example_request header creator =
     \<lparr>authorization = header, url = ''/xrpc/tools.ozone.moderation.emitEvent'',
      body = \<lparr>event = Some example_event, subject = Some example_target,
               subjectBlobCids = None, createdBy = creator\<rparr>\<rparr>"

section \<open>Properties\<close>

lemma signLabel_twice: "signLabel k256 (signLabel k256 l key) key = signLabel k256 l key"
  by (simp add: signLabel_def)

text \<open>
  Claim C6. Signing is idempotent: a label that already carries a signature passes the
  sign step unchanged, and signing the result of the sign step again changes nothing.
\<close>

theorem sign_step_idempotent:
  "(labelIsSigned l \<longrightarrow> sign_step k256 key l = l) \<and>
   sign_step k256 key (sign_step k256 key x) = sign_step k256 key x"
  by (simp add: sign_step_def signLabel_twice)

theorem sign_step_idempotent_witness:
  "labelIsSigned ((example_label ''spam'')\<lparr>sig := Some [1, 2]\<rparr>) \<and>
   sign_step (\<lambda>k l. [7]) [3] ((example_label ''spam'')\<lparr>sig := Some [1, 2]\<rparr>)
     = (example_label ''spam'')\<lparr>sig := Some [1, 2]\<rparr> \<and>
   sign_step (\<lambda>k l. [7]) [3] (sign_step (\<lambda>k l. [7]) [3] (example_label ''spam''))
     = sign_step (\<lambda>k l. [7]) [3] (example_label ''spam'')"
  using sign_step_idempotent [of "(example_label ''spam'')\<lparr>sig := Some [1, 2]\<rparr>"
      "\<lambda>k l. [7]" "[3]" "example_label ''spam''"]
  by (simp add: labelIsSigned_def)

subsection \<open>Ids assigned by the store\<close>

lemma max_id_Max:
  "labels d \<noteq> [] \<Longrightarrow> max_id d = Some (Max (set (map id_of (labels d))))"
  by (cases "labels d") (simp_all add: max_id_def Max.set_eq_fold [symmetric])

lemma next_rowid_inv: "store_inv d n \<Longrightarrow> next_rowid d = Suc n"
proof (cases "labels d = []")
  case True
  assume "store_inv d n"
  with True show ?thesis by (simp add: store_inv_def next_rowid_def max_id_def)
next
  case False
  assume inv: "store_inv d n"
  have ids: "map id_of (labels d) = [1..<Suc n]" using inv by (simp add: store_inv_def)
  have "map id_of (labels d) \<noteq> []" using False by simp
  with ids have n: "0 < n" by (cases n) auto
  have "set (map id_of (labels d)) = {1..n}" unfolding ids by auto
  moreover have "Max {1..n} = n" by (rule Max_eqI) (use n in auto)
  ultimately have "Max (set (map id_of (labels d))) = n" by simp
  with False inv show ?thesis by (simp add: next_rowid_def max_id_Max store_inv_def)
qed

lemma insert_row_inv:
  "store_inv d n \<Longrightarrow> insert_row d l = (r, d') \<Longrightarrow> r = Inr (Suc n) \<and> store_inv d' (Suc n)"
  by (auto simp: insert_row_def Let_def next_rowid_inv) (simp_all add: store_inv_def)

lemma store_inv_engine: "store_inv (d\<lparr>engine := e\<rparr>) n = store_inv d n"
  by (simp add: store_inv_def)

lemma db_saveLabel_inv:
  "store_inv d n \<Longrightarrow> db_saveLabel d l = (r, d') \<Longrightarrow>
     (r = Inr (Suc n) \<and> store_inv d' (Suc n)) \<or> ((\<exists>e. r = Inl e) \<and> store_inv d' n)"
  by (auto simp: db_saveLabel_def store_inv_engine split: list.splits run_outcome.splits
      dest: insert_row_inv [rotated])

lemma upt_Cons_shift: "m # [Suc m ..< Suc m + k] = [m ..< m + Suc k]"
  by (simp add: upt_rec [of m] del: upt_Suc)

lemma appends_inv:
  "store_inv d n \<Longrightarrow> appends d ls = (rs, d') \<Longrightarrow>
     assigned rs = [Suc n ..< Suc n + length (assigned rs)] \<and>
     store_inv d' (n + length (assigned rs))"
proof (induction ls arbitrary: d n rs d')
  case Nil
  then show ?case by simp
next
  case (Cons l ls)
  obtain r d1 where s1: "db_saveLabel d l = (r, d1)" by force
  obtain rs1 d2 where s2: "appends d1 ls = (rs1, d2)" by force
  from Cons.prems(2) s1 s2 have rs: "rs = r # rs1" and d': "d' = d2" by auto
  from db_saveLabel_inv [OF Cons.prems(1) s1] show ?case
  proof
    assume a: "r = Inr (Suc n) \<and> store_inv d1 (Suc n)"
    with Cons.IH [OF _ s2, of "Suc n"]
    have ih: "assigned rs1 = [Suc (Suc n) ..< Suc (Suc n) + length (assigned rs1)]"
      and inv: "store_inv d2 (Suc n + length (assigned rs1))" by auto
    have len: "length (assigned rs) = Suc (length (assigned rs1))" using a rs by simp
    have "assigned rs = Suc n # assigned rs1" using a rs by simp
    also have "\<dots> = Suc n # [Suc (Suc n) ..< Suc (Suc n) + length (assigned rs1)]"
      using ih by simp
    also have "\<dots> = [Suc n ..< Suc n + Suc (length (assigned rs1))]"
      by (rule upt_Cons_shift)
    finally have res: "assigned rs = [Suc n ..< Suc n + length (assigned rs)]"
      unfolding len .
    have "store_inv d' (n + length (assigned rs))" using inv d' unfolding len by simp
    with res show ?thesis by (rule conjI)
  next
    assume a: "(\<exists>e. r = Inl e) \<and> store_inv d1 n"
    with Cons.IH [OF _ s2, of n] rs d' show ?thesis by auto
  qed
qed

lemma DefaultDbProvider_inv: "store_inv (DefaultDbProvider script) 0"
  by (simp add: store_inv_def DefaultDbProvider_def)

lemma assigned_ids:
  "appends (DefaultDbProvider script) ls = (rs, d) \<Longrightarrow>
     assigned rs = [1 ..< Suc (length (assigned rs))] \<and> map id_of (labels d) = assigned rs"
  using appends_inv [OF DefaultDbProvider_inv, of script ls rs d]
  by (simp add: store_inv_def)


lemma insert_row_engine: "insert_row d l = (r, d') \<Longrightarrow> engine d' = engine d"
  by (auto simp: insert_row_def Let_def)

lemma appends_healthy:
  "store_inv d n \<Longrightarrow> engine d = [] \<Longrightarrow>
     fst (appends d ls) = map Inr [Suc n ..< Suc n + length ls]"
proof (induction ls arbitrary: d n)
  case Nil
  then show ?case by simp
next
  case (Cons l ls)
  obtain r d1 where s1: "insert_row d l = (r, d1)" by force
  from insert_row_inv [OF Cons.prems(1) s1] have r: "r = Inr (Suc n)"
    and inv: "store_inv d1 (Suc n)" by auto
  have e: "engine d1 = []" using insert_row_engine [OF s1] Cons.prems(2) by simp
  have sv: "db_saveLabel d l = (Inr (Suc n), d1)"
    using s1 r Cons.prems(2) by (simp add: db_saveLabel_def)
  have "fst (appends d (l # ls)) = Inr (Suc n) # fst (appends d1 ls)"
    using sv by (simp split: prod.splits)
  also have "\<dots> = Inr (Suc n) # map Inr [Suc (Suc n) ..< Suc (Suc n) + length ls]"
    using Cons.IH [OF inv e] by simp
  also have "\<dots> = map Inr (Suc n # [Suc (Suc n) ..< Suc (Suc n) + length ls])" by simp
  also have "\<dots> = map Inr [Suc n ..< Suc n + Suc (length ls)]"
    by (simp only: upt_Cons_shift)
  finally show ?case by simp
qed

text \<open>
  Claim C3. Whatever the engine does on each \<open>INSERT\<close>, the ids that the successful
  \<open>saveLabel\<close> calls on an initially empty store return are \<open>1, 2, 3, ...\<close> in call order:
  positive, strictly increasing, without duplicates and without gaps, and they are the
  ids of the rows of the table. When every call succeeds, the calls return
  \<open>1, ..., length ls\<close>.
\<close>

theorem assigned_ids_sequence:
  "(case appends (DefaultDbProvider script) ls of (rs, d) \<Rightarrow>
      assigned rs = [1 ..< Suc (length (assigned rs))] \<and>
      map id_of (labels d) = assigned rs \<and>
      sorted_wrt (<) (assigned rs) \<and> distinct (assigned rs) \<and> 0 \<notin> set (assigned rs)) \<and>
   fst (appends (DefaultDbProvider []) ls) = map Inr [1 ..< Suc (length ls)]"
proof -
  obtain rs d where a: "appends (DefaultDbProvider script) ls = (rs, d)" by force
  from assigned_ids [OF a] have ids: "assigned rs = [1 ..< Suc (length (assigned rs))]"
    and tab: "map id_of (labels d) = assigned rs" by auto
  from ids obtain k where k: "assigned rs = [1 ..< Suc k]" by blast
  have s: "sorted_wrt (<) (assigned rs)" unfolding k by (rule sorted_wrt_upt)
  have di: "distinct (assigned rs)" unfolding k by (rule distinct_upt)
  have z: "0 \<notin> set (assigned rs)" unfolding k by simp
  have h: "fst (appends (DefaultDbProvider []) ls) = map Inr [1 ..< Suc (length ls)]"
    using appends_healthy [OF DefaultDbProvider_inv, of "[]" ls]
    by (simp add: DefaultDbProvider_def)
  show ?thesis using a ids tab s di z h by simp
qed

subsection \<open>Evaluation of concrete runs\<close>

lemmas eval_defs =
  run_def boot_def example_server_def example_label_def DefaultDbProvider_def
  saveLabel_begin_def saveLabel_end_def sign_step_def labelIsSigned_def signLabel_def
  db_saveLabel_def insert_row_def next_rowid_def max_id_def emitLabel_def subscribers_def
  ws_send_def ws_close_def addSubscription_def removeSubscription_def onClose_def
  onOpen_begin_def isCursorInTheFuture_def iterateLabels_def rowsNext_def iter_next_def
  subscribeLabels_def Let_def

lemmas batch_defs =
  createLabels_def createLabel_def excludeNullish_def saveLabel_def batch_create_def
  batch_negate_def example_subject_def example_vals_def failing_server_def engine_error_def

lemmas search_defs =
  searchLabels_def like_pattern_def escape_pattern_def select_labels_def where_clause_def
  eval_where_def sql_limit_def like_def c_string_def ascii_lower_def search_store_def
  percent_store_def underscore_store_def
  labelled_def example_label_def DefaultDbProvider_def db_saveLabel_def insert_row_def
  next_rowid_def max_id_def Let_def

lemmas handler_defs =
  emitEventHandler_def parseAuthHeaderDid_def truthy_def nsid_of_url_def no_vals_def
  example_request_def example_event_def example_target_def modEventLabel_def repoRef_def
  strongRef_def

subsection \<open>A cursor in the future\<close>

lemma ws_send_simps [simp]:
  "subscribers (ws_send s w f) n = subscribers s n"
  "sent (ws_send s w f) w' = (if w' = w then sent s w @ [f] else sent s w')"
  "closed (ws_send s w f) = closed s"
  "db (ws_send s w f) = db s"
  by (simp_all add: ws_send_def subscribers_def)

lemma ws_close_simps [simp]:
  "subscribers (ws_close s w) n = subscribers s n"
  "sent (ws_close s w) = sent s"
  "closed (ws_close s w) w' = (w' = w \<or> closed s w')"
  "db (ws_close s w) = db s"
  by (simp_all add: ws_close_def subscribers_def)

lemma fan_out_simps:
  "subscribers (foldl (\<lambda>s' w. ws_send s' w f) s ws) n = subscribers s n"
  "closed (foldl (\<lambda>s' w. ws_send s' w f) s ws) = closed s"
  "db (foldl (\<lambda>s' w. ws_send s' w f) s ws) = db s"
  "w' \<notin> set ws \<Longrightarrow> sent (foldl (\<lambda>s' w. ws_send s' w f) s ws) w' = sent s w'"
  by (induction ws arbitrary: s) simp_all

lemma emitLabel_simps [simp]:
  "subscribers (emitLabel s n l) nsid = subscribers s nsid"
  "closed (emitLabel s n l) = closed s"
  "db (emitLabel s n l) = db s"
  "w \<notin> set (subscribers s subscribeLabels) \<Longrightarrow> sent (emitLabel s n l) w = sent s w"
  by (simp_all add: emitLabel_def fan_out_simps)

lemma addSubscription_simps [simp]:
  "set (subscribers (addSubscription s n w) n) = insert w (set (subscribers s n))"
  "sent (addSubscription s n w) = sent s"
  "closed (addSubscription s n w) = closed s"
  "db (addSubscription s n w) = db s"
  by (auto simp: addSubscription_def subscribers_def Let_def)

lemma removeSubscription_subscribers [simp]:
  "set (subscribers (removeSubscription s n w) n) = set (subscribers s n) - {w}"
proof (cases "connections s n")
  case None
  then show ?thesis by (simp add: removeSubscription_def subscribers_def)
next
  case (Some subs)
  have r: "set (removeAll w subs) = set subs - {w}" by simp
  show ?thesis
  proof (cases "removeAll w subs = []")
    case True
    with r have "set subs - {w} = {}" by simp
    with Some True show ?thesis by (simp add: removeSubscription_def subscribers_def)
  next
    case False
    with Some show ?thesis by (simp add: removeSubscription_def subscribers_def)
  qed
qed

lemma removeSubscription_simps [simp]:
  "sent (removeSubscription s n w) = sent s"
  "closed (removeSubscription s n w) = closed s"
  "db (removeSubscription s n w) = db s"
  by (auto simp: removeSubscription_def Let_def split: option.splits)

lemma saveLabel_begin_frame:
  "saveLabel_begin s l = (r, s') \<Longrightarrow>
     subscribers s' n = subscribers s n \<and> sent s' = sent s \<and> closed s' = closed s"
  by (auto simp: saveLabel_begin_def Let_def subscribers_def split: prod.splits sum.splits)

lemma onOpen_resume_other:
  "onOpen_resume s w' task = (s', task') \<Longrightarrow> w \<noteq> w' \<Longrightarrow>
     sent s' w = sent s w \<and> closed s' w = closed s w \<and>
     (w \<in> set (subscribers s' subscribeLabels)) = (w \<in> set (subscribers s subscribeLabels))"
  by (cases "(s, w', task)" rule: onOpen_resume.cases)
     (auto simp: Let_def split: if_splits prod.splits)


lemma step_awaiting:
  assumes "awaiting_refusal rt w" and "\<not> opens w [a]"
  shows "if a = ResumeOpen w then refused (step rt a) w else awaiting_refusal (step rt a) w"
proof (cases a)
  case (WsOpen w' c)
  with assms show ?thesis by (auto simp: awaiting_refusal_def)
next
  case (ResumeOpen w')
  show ?thesis
  proof (cases "w' = w")
    case True
    with assms ResumeOpen show ?thesis
      by (auto simp: awaiting_refusal_def refused_def future_frame_def
          split: option.splits open_task.splits)
  next
    case False
    with assms ResumeOpen show ?thesis
      by (auto simp: awaiting_refusal_def split: option.splits prod.splits
          dest: onOpen_resume_other)
  qed
next
  case (WsClose w')
  with assms show ?thesis by (auto simp: awaiting_refusal_def onClose_def)
next
  case (SaveLabel l)
  obtain r s' where b: "saveLabel_begin (srv rt) l = (r, s')" by force
  from saveLabel_begin_frame [OF b, of subscribeLabels] assms SaveLabel b show ?thesis
    by (auto simp: awaiting_refusal_def split: sum.splits)
next
  case (ResumeSave i)
  with assms show ?thesis
    by (auto simp: awaiting_refusal_def saveLabel_end_def split: prod.splits)
qed

lemma step_refused:
  assumes "refused rt w" and "\<not> opens w [a]"
  shows "refused (step rt a) w"
proof (cases a)
  case (WsOpen w' c)
  with assms show ?thesis by (auto simp: refused_def)
next
  case (ResumeOpen w')
  show ?thesis
  proof (cases "w' = w")
    case True
    with assms ResumeOpen show ?thesis by (auto simp: refused_def)
  next
    case False
    with assms ResumeOpen show ?thesis
      by (auto simp: refused_def split: option.splits prod.splits
          dest: onOpen_resume_other)
  qed
next
  case (WsClose w')
  with assms show ?thesis by (auto simp: refused_def onClose_def)
next
  case (SaveLabel l)
  obtain r s' where b: "saveLabel_begin (srv rt) l = (r, s')" by force
  from saveLabel_begin_frame [OF b, of subscribeLabels] assms SaveLabel b show ?thesis
    by (auto simp: refused_def split: sum.splits)
next
  case (ResumeSave i)
  with assms show ?thesis
    by (auto simp: refused_def saveLabel_end_def split: prod.splits)
qed

lemma opens_Cons: "opens w (a # as) = (opens w [a] \<or> opens w as)"
  by (cases a) auto

lemma run_refused: "refused rt w \<Longrightarrow> \<not> opens w acts \<Longrightarrow> refused (run rt acts) w"
proof (induction acts arbitrary: rt)
  case Nil
  then show ?case by (simp add: run_def)
next
  case (Cons a acts)
  from Cons.prems have "\<not> opens w [a]" and no: "\<not> opens w acts"
    using opens_Cons [of w a acts] by auto
  with Cons.prems(1) have "refused (step rt a) w" by (auto intro: step_refused)
  from Cons.IH [OF this no] show ?case by (simp add: run_def)
qed

lemma run_awaiting:
  "awaiting_refusal rt w \<Longrightarrow> \<not> opens w acts \<Longrightarrow>
     (if ResumeOpen w \<in> set acts then refused (run rt acts) w
      else awaiting_refusal (run rt acts) w)"
proof (induction acts arbitrary: rt)
  case Nil
  then show ?case by (simp add: run_def)
next
  case (Cons a acts)
  from Cons.prems have na: "\<not> opens w [a]" and no: "\<not> opens w acts"
    using opens_Cons [of w a acts] by auto
  have r: "run rt (a # acts) = run (step rt a) acts" by (simp add: run_def)
  show ?case
  proof (cases "a = ResumeOpen w")
    case True
    with step_awaiting [OF Cons.prems(1) na] have "refused (step rt a) w" by simp
    from run_refused [OF this no] True r show ?thesis by simp
  next
    case False
    with step_awaiting [OF Cons.prems(1) na] have "awaiting_refusal (step rt a) w" by simp
    from Cons.IH [OF this no] False r show ?thesis by auto
  qed
qed


text \<open>
  Claim C4. A handle connects with a cursor above the largest id of the store (above
  \<open>0\<close> when the store is empty); the handle is fresh (nothing sent to it, not
  registered). Whatever the server runs afterwards, short of a second connection on the
  same handle: the handle is never among the subscribers and is sent no message frame;
  once its \<open>onOpen\<close> has gone on after the check, it has been sent exactly the
  \<open>FutureCursor\<close> error frame and is closed, and \<open>onOpen\<close> is over.
\<close>

theorem future_cursor_refused:
  assumes "(case max_id (db (srv rt)) of None \<Rightarrow> 0 | Some m \<Rightarrow> int m) < c"
    and "sent (srv rt) w = []"
    and "w \<notin> set (subscribers (srv rt) subscribeLabels)"
    and "\<not> opens w acts"
  shows "let rt' = run (step rt (WsOpen w (Some c))) acts in
           w \<notin> set (subscribers (srv rt') subscribeLabels) \<and>
           frame_seqs (sent (srv rt') w) = [] \<and>
           (if ResumeOpen w \<in> set acts
            then sent (srv rt') w = [ErrorFrame ''FutureCursor'' ''Cursor is in the future''] \<and>
                 closed (srv rt') w \<and> suspended rt' w = None
            else sent (srv rt') w = [])"
proof -
  have "awaiting_refusal (step rt (WsOpen w (Some c))) w"
    using assms(1-3)
    by (simp add: awaiting_refusal_def onOpen_begin_def isCursorInTheFuture_def)
  from run_awaiting [OF this assms(4)] show ?thesis
    by (auto simp: Let_def refused_def awaiting_refusal_def future_frame_def)
qed

theorem future_cursor_refused_witness:
  "(case max_id (db (srv one_label)) of None \<Rightarrow> 0 | Some m \<Rightarrow> int m) < 2 \<and>
   sent (srv one_label) 7 = [] \<and>
   7 \<notin> set (subscribers (srv one_label) subscribeLabels) \<and>
   \<not> opens 7 [SaveLabel (example_label ''porn''), ResumeOpen 7, ResumeSave 0, WsClose 7] \<and>
   sent (srv (run (step one_label (WsOpen 7 (Some 2)))
      [SaveLabel (example_label ''porn''), ResumeOpen 7, ResumeSave 0, WsClose 7])) 7
     = [ErrorFrame ''FutureCursor'' ''Cursor is in the future''] \<and>
   closed (srv (run (step one_label (WsOpen 7 (Some 2)))
      [SaveLabel (example_label ''porn''), ResumeOpen 7, ResumeSave 0, WsClose 7])) 7 \<and>
   7 \<notin> set (subscribers (srv (run (step one_label (WsOpen 7 (Some 2)))
      [SaveLabel (example_label ''porn''), ResumeOpen 7, ResumeSave 0, WsClose 7]))
      subscribeLabels)"
proof -
  have h1: "(case max_id (db (srv one_label)) of None \<Rightarrow> 0 | Some m \<Rightarrow> int m) < 2"
    by (simp add: one_label_def eval_defs)
  have h2: "sent (srv one_label) 7 = []" by (simp add: one_label_def eval_defs)
  have h3: "7 \<notin> set (subscribers (srv one_label) subscribeLabels)"
    by (simp add: one_label_def eval_defs)
  have h4: "\<not> opens 7 [SaveLabel (example_label ''porn''), ResumeOpen 7, ResumeSave 0, WsClose 7]"
    by simp
  from future_cursor_refused [OF h1 h2 h3 h4] h1 h2 h3 h4 show ?thesis
    by (simp add: Let_def)
qed

subsection \<open>The seam between catch-up and live delivery\<close>

text \<open>
  Claim C1. A run of the server on which the claim fails. One label is in the store
  (id 1). Handle 7 connects with cursor 0; its scan sends the row with id 1, and the
  next \<open>next()\<close> finds no further row. While \<open>onOpen\<close> waits for that result, a second
  label is saved (id 2) and emitted, to no subscriber. Then \<open>onOpen\<close> goes on and registers
  the handle. Nothing is left to run, the store holds ids 1 and 2, and handle 7 was
  sent the frame of id 1 only.
\<close>

theorem catch_up_seam_drops_record:
  "(let rt = run boot
       [SaveLabel (example_label ''spam''), ResumeSave 0, WsOpen 7 (Some 0), ResumeOpen 7,
        ResumeOpen 7, SaveLabel (example_label ''porn''), ResumeSave 0, ResumeOpen 7]
    in map id_of (labels (db (srv rt))) = [1, 2] \<and>
       subscribers (srv rt) subscribeLabels = [7] \<and>
       suspended rt 7 = None \<and> saving rt = [] \<and>
       frame_seqs (sent (srv rt) 7) = [1])"
  by (simp add: eval_defs)

subsection \<open>\<open>createLabels\<close>\<close>

lemma insert_row_row:
  "insert_row d l = (r, d') \<Longrightarrow>
     \<exists>n row. r = Inr n \<and> labels d' = labels d @ [row] \<and> id_of row = n \<and>
       val (label_of row) = val l \<and> engine d' = engine d"
  by (auto simp: insert_row_def Let_def)

lemma db_saveLabel_cases:
  "db_saveLabel d l = (r, d') \<Longrightarrow>
     engine d' = tl (engine d) \<and>
     (case r of
        Inr n \<Rightarrow> (engine d = [] \<or> hd (engine d) = Inserted) \<and>
                 (\<exists>row. labels d' = labels d @ [row] \<and> id_of row = n \<and>
                    val (label_of row) = val l)
      | Inl e \<Rightarrow> engine d \<noteq> [] \<and> hd (engine d) \<noteq> Inserted \<and>
                 e = engine_error (hd (engine d)) \<and> labels d' = labels d)"
  by (auto simp: db_saveLabel_def engine_error_def split: list.splits run_outcome.splits
      dest!: insert_row_row)

lemma createLabel_cases:
  "createLabel s data = (r, s') \<Longrightarrow>
     engine (db s') = tl (engine (db s)) \<and>
     (case r of
        Inr saved \<Rightarrow>
          (engine (db s) = [] \<or> hd (engine (db s)) = Inserted) \<and>
          val (label_of saved) = d_val data \<and> uri (label_of saved) = d_uri data \<and>
          cid (label_of saved) = d_cid data \<and> neg (label_of saved) = d_neg data \<and>
          (\<exists>row. labels (db s') = labels (db s) @ [row] \<and> id_of row = id_of saved \<and>
             val (label_of row) = d_val data)
      | Inl e \<Rightarrow>
          engine (db s) \<noteq> [] \<and> hd (engine (db s)) \<noteq> Inserted \<and>
          e = engine_error (hd (engine (db s))) \<and> labels (db s') = labels (db s))"
proof -
  let ?l = "excludeNullish
       \<lparr>cts = (case d_cts data of None \<Rightarrow> now s | Some c \<Rightarrow> c),
        src = (case d_src data of None \<Rightarrow> did s | Some a \<Rightarrow> a),
        uri = d_uri data, val = d_val data, cid = d_cid data, exp = d_exp data,
        neg = d_neg data, ver = None, sig = None\<rparr>"
  let ?signed = "sign_step (k256Sign s) (signingKey s) ?l"
  assume c: "createLabel s data = (r, s')"
  have f: "val ?signed = d_val data" "uri ?signed = d_uri data" "cid ?signed = d_cid data"
    "neg ?signed = d_neg data"
    by (simp_all add: sign_step_def signLabel_def excludeNullish_def)
  obtain q d' where sv: "db_saveLabel (db s) ?signed = (q, d')" by force
  from db_saveLabel_cases [OF sv] f(1) c sv show ?thesis
    by (cases q)
       (auto simp: createLabel_def saveLabel_def saveLabel_begin_def saveLabel_end_def
          Let_def f split: prod.splits sum.splits)
qed


lemma loop_step:
  "createLabels_loop s subj ng (v # vs) acc =
     (case createLabel s (loop_data subj ng v) of
        (Inl e, s') \<Rightarrow> (Inl e, s')
      | (Inr r, s') \<Rightarrow> createLabels_loop s' subj ng vs (acc @ [r]))"
  by (simp add: loop_data_def)

lemma loop_returns:
  "list_all (\<lambda>out. out = Inserted) (take (length vs) (engine (db s))) \<Longrightarrow>
     \<exists>new s' rows.
       createLabels_loop s subj ng vs acc = (Inr (acc @ new), s') \<and>
       map (val \<circ> label_of) new = vs \<and>
       map (neg \<circ> label_of) new = replicate (length vs) ng \<and>
       map (uri \<circ> label_of) new = replicate (length vs) (s_uri subj) \<and>
       map (cid \<circ> label_of) new = replicate (length vs) (s_cid subj) \<and>
       engine (db s') = drop (length vs) (engine (db s)) \<and>
       labels (db s') = labels (db s) @ rows \<and> map (val \<circ> label_of) rows = vs"
proof (induction vs arbitrary: s acc)
  case Nil
  then show ?case by simp
next
  case (Cons v vs)
  obtain r s1 where c: "createLabel s (loop_data subj ng v) = (r, s1)" by force
  from Cons.prems have ok: "engine (db s) = [] \<or> hd (engine (db s)) = Inserted"
    and rest: "list_all (\<lambda>out. out = Inserted) (take (length vs) (tl (engine (db s))))"
    by (cases "engine (db s)"; simp)+
  from createLabel_cases [OF c] ok obtain saved row where r: "r = Inr saved"
    and e1: "engine (db s1) = tl (engine (db s))"
    and f: "val (label_of saved) = v" "uri (label_of saved) = s_uri subj"
      "cid (label_of saved) = s_cid subj" "neg (label_of saved) = ng"
    and row: "labels (db s1) = labels (db s) @ [row]" "val (label_of row) = v"
    by (cases r) (auto simp: loop_data_def)
  from rest e1 have "list_all (\<lambda>out. out = Inserted) (take (length vs) (engine (db s1)))"
    by simp
  from Cons.IH [OF this, of "acc @ [saved]"] obtain new s' rows where
    l: "createLabels_loop s1 subj ng vs (acc @ [saved]) = (Inr ((acc @ [saved]) @ new), s')"
    and n: "map (val \<circ> label_of) new = vs" "map (neg \<circ> label_of) new = replicate (length vs) ng"
      "map (uri \<circ> label_of) new = replicate (length vs) (s_uri subj)"
      "map (cid \<circ> label_of) new = replicate (length vs) (s_cid subj)"
    and e: "engine (db s') = drop (length vs) (engine (db s1))"
    and t: "labels (db s') = labels (db s1) @ rows" "map (val \<circ> label_of) rows = vs"
    by blast
  have "createLabels_loop s subj ng (v # vs) acc = (Inr (acc @ (saved # new)), s')"
    using c r l by (simp add: loop_step del: createLabels_loop.simps)
  moreover have "engine (db s') = drop (length (v # vs)) (engine (db s))"
    using e e1 by (simp add: drop_Suc)
  moreover have "labels (db s') = labels (db s) @ (row # rows)" using t row by simp
  moreover have "map (val \<circ> label_of) (saved # new) = v # vs"
    "map (neg \<circ> label_of) (saved # new) = replicate (length (v # vs)) ng"
    "map (uri \<circ> label_of) (saved # new) = replicate (length (v # vs)) (s_uri subj)"
    "map (cid \<circ> label_of) (saved # new) = replicate (length (v # vs)) (s_cid subj)"
    "map (val \<circ> label_of) (row # rows) = v # vs"
    using n f t(2) row(2) by simp_all
  ultimately show ?case
    apply (intro exI [of _ "saved # new"])
    apply (intro exI [of _ s'])
    apply (intro exI [of _ "row # rows"])
    apply (intro conjI)
    apply assumption+
    done
qed

lemma loop_fails:
  "engine (db s) = replicate k Inserted @ out # rest \<Longrightarrow> out \<noteq> Inserted \<Longrightarrow>
   k < length vs \<Longrightarrow>
     \<exists>s' rows.
       createLabels_loop s subj ng vs acc = (Inl (engine_error out), s') \<and>
       labels (db s') = labels (db s) @ rows \<and> map (val \<circ> label_of) rows = take k vs"
proof (induction k arbitrary: s acc vs)
  case 0
  then obtain v vs' where vs: "vs = v # vs'" by (cases vs) auto
  obtain r s1 where c: "createLabel s (loop_data subj ng v) = (r, s1)" by force
  from createLabel_cases [OF c] 0 have "r = Inl (engine_error out)"
    and "labels (db s1) = labels (db s)"
    by (cases r; simp)+
  with c vs show ?case by (simp add: loop_step del: createLabels_loop.simps)
next
  case (Suc k)
  then obtain v vs' where vs: "vs = v # vs'" and k: "k < length vs'" by (cases vs) auto
  obtain r s1 where c: "createLabel s (loop_data subj ng v) = (r, s1)" by force
  from createLabel_cases [OF c] Suc.prems(1) obtain saved row where r: "r = Inr saved"
    and e1: "engine (db s1) = replicate k Inserted @ out # rest"
    and row: "labels (db s1) = labels (db s) @ [row]" "val (label_of row) = v"
    by (cases r) (auto simp: loop_data_def)
  from Suc.IH [OF e1 Suc.prems(2) k, of "acc @ [saved]"] obtain s' rows where
    l: "createLabels_loop s1 subj ng vs' (acc @ [saved]) = (Inl (engine_error out), s')"
    and t: "labels (db s') = labels (db s1) @ rows" "map (val \<circ> label_of) rows = take k vs'"
    by blast
  have "createLabels_loop s subj ng vs acc = (Inl (engine_error out), s')"
    using c r l vs by (simp add: loop_step del: createLabels_loop.simps)
  moreover have "labels (db s') = labels (db s) @ (row # rows)" using t row by simp
  moreover have "map (val \<circ> label_of) (row # rows) = take (Suc k) vs"
    using t(2) row(2) vs by simp
  ultimately show ?case by blast
qed


lemma createLabels_loops:
  "createLabels s subj labs =
     (case createLabels_loop s subj None (batch_create labs) [] of
        (Inl e, s') \<Rightarrow> (Inl e, s')
      | (Inr created, s') \<Rightarrow>
          createLabels_loop s' subj (Some True) (batch_negate labs) created)"
  by (simp add: createLabels_def batch_create_def batch_negate_def
      split: option.splits prod.splits sum.splits)

text \<open>
  Claim C5. When the engine inserts on each of the calls, \<open>createLabels\<close> returns one
  saved label per value: the values of \<open>create\<close> in listed order with \<open>neg\<close> absent, then
  the values of \<open>negate\<close> in listed order with \<open>neg = true\<close>, every one with the \<open>uri\<close> and
  the \<open>cid\<close> of the subject. (The instance below is the example of the spec.)
\<close>

theorem createLabels_in_order:
  assumes "list_all (\<lambda>out. out = Inserted)
             (take (length (batch_create labs @ batch_negate labs)) (engine (db s)))"
  shows "\<exists>rs s'. createLabels s subj labs = (Inr rs, s') \<and>
           map (val \<circ> label_of) rs = batch_create labs @ batch_negate labs \<and>
           map (neg \<circ> label_of) rs =
             replicate (length (batch_create labs)) None
             @ replicate (length (batch_negate labs)) (Some True) \<and>
           map (uri \<circ> label_of) rs = replicate (length rs) (s_uri subj) \<and>
           map (cid \<circ> label_of) rs = replicate (length rs) (s_cid subj)"
proof -
  let ?cs = "batch_create labs" and ?ns = "batch_negate labs"
  from assms have a1: "list_all (\<lambda>out. out = Inserted) (take (length ?cs) (engine (db s)))"
    and a2: "list_all (\<lambda>out. out = Inserted)
               (take (length ?ns) (drop (length ?cs) (engine (db s))))"
    by (simp_all add: take_add)
  from loop_returns [OF a1, of subj None "[]"] obtain created s1 where
    l1: "createLabels_loop s subj None ?cs [] = (Inr created, s1)"
    and c: "map (val \<circ> label_of) created = ?cs"
      "map (neg \<circ> label_of) created = replicate (length ?cs) None"
      "map (uri \<circ> label_of) created = replicate (length ?cs) (s_uri subj)"
      "map (cid \<circ> label_of) created = replicate (length ?cs) (s_cid subj)"
    and e1: "engine (db s1) = drop (length ?cs) (engine (db s))"
    by auto
  from a2 e1 have "list_all (\<lambda>out. out = Inserted) (take (length ?ns) (engine (db s1)))"
    by simp
  from loop_returns [OF this, of subj "Some True" created] obtain negated s2 where
    l2: "createLabels_loop s1 subj (Some True) ?ns created = (Inr (created @ negated), s2)"
    and n: "map (val \<circ> label_of) negated = ?ns"
      "map (neg \<circ> label_of) negated = replicate (length ?ns) (Some True)"
      "map (uri \<circ> label_of) negated = replicate (length ?ns) (s_uri subj)"
      "map (cid \<circ> label_of) negated = replicate (length ?ns) (s_cid subj)"
    by auto
  have len: "length created = length ?cs" "length negated = length ?ns"
    using c(1) n(1) by (metis length_map)+
  have "createLabels s subj labs = (Inr (created @ negated), s2)"
    using l1 l2 by (simp add: createLabels_loops)
  moreover have "map (uri \<circ> label_of) (created @ negated)
      = replicate (length (created @ negated)) (s_uri subj)"
    using c(3) n(3) len by (simp add: replicate_add)
  moreover have "map (cid \<circ> label_of) (created @ negated)
      = replicate (length (created @ negated)) (s_cid subj)"
    using c(4) n(4) len by (simp add: replicate_add)
  moreover have "map (val \<circ> label_of) (created @ negated) = ?cs @ ?ns"
    "map (neg \<circ> label_of) (created @ negated)
      = replicate (length ?cs) None @ replicate (length ?ns) (Some True)"
    using c(1,2) n(1,2) by simp_all
  ultimately show ?thesis by blast
qed

theorem createLabels_in_order_witness:
  "list_all (\<lambda>out. out = Inserted)
     (take (length (batch_create example_vals @ batch_negate example_vals))
        (engine (db example_server))) \<and>
   fst (createLabels example_server example_subject example_vals) =
     Inr [\<lparr>id_of = 1, label_of = (example_label ''spam'')\<lparr>sig := Some [7]\<rparr>\<rparr>,
          \<lparr>id_of = 2, label_of = (example_label ''porn'')\<lparr>neg := Some True, sig := Some [7]\<rparr>\<rparr>]"
  using createLabels_in_order [of example_vals example_server example_subject]
  by (simp add: batch_defs eval_defs)

text \<open>
  Claim C7. When the engine inserts on the first \<open>k\<close> calls of a batch and fails on the
  next one, \<open>createLabels\<close> ends with the error of that call, and the table holds what it
  held before followed by \<open>k\<close> new rows, the rows of the first \<open>k\<close> values of the batch:
  nothing is rolled back.
\<close>

theorem createLabels_not_atomic:
  assumes "engine (db s) = replicate k Inserted @ out # rest"
    and "out \<noteq> Inserted"
    and "k < length (batch_create labs @ batch_negate labs)"
  shows "\<exists>s' rows. createLabels s subj labs = (Inl (engine_error out), s') \<and>
           labels (db s') = labels (db s) @ rows \<and> length rows = k \<and>
           map (val \<circ> label_of) rows = take k (batch_create labs @ batch_negate labs)"
proof -
  let ?cs = "batch_create labs" and ?ns = "batch_negate labs"
  have main: "\<exists>s' rows. createLabels s subj labs = (Inl (engine_error out), s') \<and>
           labels (db s') = labels (db s) @ rows \<and>
           map (val \<circ> label_of) rows = take k (?cs @ ?ns)"
  proof (cases "k < length ?cs")
    case True
    from loop_fails [OF assms(1,2) True, of subj None "[]"] obtain s' rows where
      "createLabels_loop s subj None ?cs [] = (Inl (engine_error out), s')"
      "labels (db s') = labels (db s) @ rows" "map (val \<circ> label_of) rows = take k ?cs"
      by blast
    with True show ?thesis by (auto simp: createLabels_loops)
  next
    case False
    define j where "j = k - length ?cs"
    from False assms(3) have j: "j < length ?ns" and k: "k = length ?cs + j"
      by (simp_all add: j_def)
    have e: "engine (db s) = replicate (length ?cs) Inserted @ replicate j Inserted @ out # rest"
      using assms(1) k by (simp add: replicate_add)
    then have "list_all (\<lambda>out. out = Inserted) (take (length ?cs) (engine (db s)))"
      by (simp add: list_all_length)
    from loop_returns [OF this, of subj None "[]"] obtain created s1 rows1 where
      l1: "createLabels_loop s subj None ?cs [] = (Inr created, s1)"
      and e1: "engine (db s1) = drop (length ?cs) (engine (db s))"
      and t1: "labels (db s1) = labels (db s) @ rows1" "map (val \<circ> label_of) rows1 = ?cs"
      by auto
    from e1 e have "engine (db s1) = replicate j Inserted @ out # rest" by simp
    from loop_fails [OF this assms(2) j, of subj "Some True" created] obtain s' rows2 where
      l2: "createLabels_loop s1 subj (Some True) ?ns created = (Inl (engine_error out), s')"
      and t2: "labels (db s') = labels (db s1) @ rows2"
        "map (val \<circ> label_of) rows2 = take j ?ns"
      by blast
    have "createLabels s subj labs = (Inl (engine_error out), s')"
      using l1 l2 by (simp add: createLabels_loops)
    moreover have "labels (db s') = labels (db s) @ (rows1 @ rows2)" using t1 t2 by simp
    moreover have "map (val \<circ> label_of) (rows1 @ rows2) = take k (?cs @ ?ns)"
      using t1(2) t2(2) k by simp
    ultimately show ?thesis by blast
  qed
  then obtain s' rows where r: "createLabels s subj labs = (Inl (engine_error out), s')"
    "labels (db s') = labels (db s) @ rows"
    "map (val \<circ> label_of) rows = take k (?cs @ ?ns)" by blast
  from r(3) assms(3) have "length rows = k" by (metis length_map length_take min.absorb2 less_imp_le)
  with r show ?thesis by blast
qed


theorem createLabels_not_atomic_witness:
  "engine (db failing_server) = replicate 1 Inserted @ Throws # [] \<and>
   Throws \<noteq> Inserted \<and>
   1 < length (batch_create example_vals @ batch_negate example_vals) \<and>
   fst (createLabels failing_server example_subject example_vals) = Inl SqliteError \<and>
   map (val \<circ> label_of)
     (labels (db (snd (createLabels failing_server example_subject example_vals))))
     = [''spam'']"
proof -
  have h1: "engine (db failing_server) = replicate 1 Inserted @ Throws # []"
    by (simp add: batch_defs eval_defs)
  have h2: "Throws \<noteq> Inserted" by simp
  have h3: "1 < length (batch_create example_vals @ batch_negate example_vals)"
    by (simp add: batch_defs)
  from createLabels_not_atomic [OF h1 h2 h3, of example_subject] h1 h2 h3
  show ?thesis by (auto simp: batch_defs eval_defs)
qed

subsection \<open>\<open>searchLabels\<close>\<close>

text \<open>
  Claim C2. An input on which the claim fails. The store holds row 1 (uri \<open>at://a\<close>,
  source \<open>did:plc:other\<close>) and row 2 (uri \<open>at://b\<close>, source \<open>did:plc:labeler\<close>). The search
  has two patterns, the one source \<open>did:plc:labeler\<close> and cursor 1. The clause reads
  \<open>1 = 1 AND uri LIKE ? OR uri LIKE ? AND src IN (?) AND id > ?\<close>, so the source and the
  cursor only restrict the last pattern: row 1 is returned, though its source is not
  among the sources and its id is not above the cursor.
\<close>

theorem or_escapes_source_and_cursor_filters:
  "map id_of (labels search_store) = [1, 2] \<and>
   map (uri \<circ> label_of) (labels search_store) = [''at://a'', ''at://b''] \<and>
   map (src \<circ> label_of) (labels search_store) = [''did:plc:other'', ''did:plc:labeler''] \<and>
   map_sum id (map id_of)
     (searchLabels search_store (Some 1) 50 [''at://a'', ''at://b''] [''did:plc:labeler''])
     = Inr [1, 2]"
  by (simp add: search_defs)

text \<open>
  Claim C8, as stated, fails on two inputs: a list that holds the literal \<open>*\<close> is not
  validated at all, and the \<open>%\<close> characters are deleted before the position of the
  \<open>*\<close> is checked, so \<open>a*%\<close> is the supported pattern \<open>a*\<close>.
\<close>

theorem interior_wildcard_accepted:
  "CHR ''*'' \<in> set (butlast ''a*b*'') \<and>
   map_sum id (map id_of) (searchLabels search_store None 50 [''*'', ''a*b*''] []) = Inr [1, 2] \<and>
   CHR ''*'' \<in> set (butlast ''a*%'') \<and>
   map_sum id (map id_of) (searchLabels search_store None 50 [''a*%''] []) = Inr [1, 2]"
  by (simp add: search_defs)

lemma indexOf_butlast:
  "c \<in> set (butlast xs) \<Longrightarrow> \<exists>i. indexOf c xs = Some i \<and> i < length xs - 1"
proof (induction xs)
  case Nil
  then show ?case by simp
next
  case (Cons x xs)
  show ?case
  proof (cases "x = c")
    case True
    with Cons.prems show ?thesis by (cases xs) auto
  next
    case False
    with Cons.prems have "c \<in> set (butlast xs)" by (cases xs) auto
    from Cons.IH [OF this] False show ?thesis by auto
  qed
qed

lemma escape_keeps_star:
  "CHR ''*'' \<in> set (butlast s) \<Longrightarrow>
     CHR ''*'' \<in> set (butlast
       (concat (map (\<lambda>c. if c = CHR ''_'' then [CHR 0x5C, CHR ''_''] else [c]) s)))"
proof (induction s)
  case Nil
  then show ?case by simp
next
  case (Cons x s)
  let ?esc = "\<lambda>c. if c = CHR ''_'' then [CHR 0x5C, CHR ''_''] else [c]"
  from Cons.prems have ne: "s \<noteq> []" by (cases s) auto
  then have ne': "concat (map ?esc s) \<noteq> []" by (cases s) auto
  have b: "butlast (concat (map ?esc (x # s))) = ?esc x @ butlast (concat (map ?esc s))"
    using ne' by (simp add: butlast_append)
  from Cons.prems ne have "x = CHR ''*'' \<or> CHR ''*'' \<in> set (butlast s)" by auto
  then show ?case
  proof
    assume "x = CHR ''*''"
    then show ?thesis unfolding b by simp
  next
    assume "CHR ''*'' \<in> set (butlast s)"
    from Cons.IH [OF this] show ?thesis unfolding b by simp
  qed
qed

lemma like_pattern_rejects:
  assumes "CHR ''*'' \<in> set (butlast (strip_percent p))"
  shows "like_pattern p = Inl unsupported_pattern"
proof -
  from escape_keeps_star [OF assms] have "CHR ''*'' \<in> set (butlast (escape_pattern p))"
    by (simp add: escape_pattern_def strip_percent_def)
  from indexOf_butlast [OF this] show ?thesis
    by (auto simp: like_pattern_def Let_def unsupported_pattern_def)
qed

lemma like_pattern_error: "like_pattern p = Inl e \<Longrightarrow> e = unsupported_pattern"
  by (auto simp: like_pattern_def Let_def unsupported_pattern_def split: option.splits if_splits)

lemma like_patterns_rejects:
  "p \<in> set ps \<Longrightarrow> like_pattern p = Inl unsupported_pattern \<Longrightarrow>
     like_patterns ps = Inl unsupported_pattern"
proof (induction ps)
  case Nil
  then show ?case by simp
next
  case (Cons a ps)
  show ?case
  proof (cases "like_pattern a")
    case (Inl e)
    with like_pattern_error [OF Inl] show ?thesis by simp
  next
    case (Inr q)
    with Cons.prems have "p \<in> set ps" by auto
    from Cons.IH [OF this Cons.prems(2)] Inr show ?thesis by simp
  qed
qed

text \<open>
  Claim C8, amended. For a list of patterns without the literal \<open>*\<close>: if a pattern,
  once its \<open>%\<close> characters are deleted, has a \<open>*\<close> before its last character, the search
  fails with \<open>InvalidRequest\<close> and returns no records.
\<close>

theorem interior_wildcard_rejected:
  assumes "''*'' \<notin> set uriPatterns"
    and "p \<in> set uriPatterns"
    and "CHR ''*'' \<in> set (butlast (strip_percent p))"
  shows "searchLabels d cursor limit uriPatterns sources
           = Inl (XRPCError 400 ''InvalidRequest''
                   ''Only trailing wildcards are supported in uriPatterns'')"
  using assms(1) like_patterns_rejects [OF assms(2) like_pattern_rejects [OF assms(3)]]
  by (simp add: searchLabels_def unsupported_pattern_def)

theorem interior_wildcard_rejected_witness:
  "''*'' \<notin> set [''at://x'', ''a*b*''] \<and> ''a*b*'' \<in> set [''at://x'', ''a*b*''] \<and>
   CHR ''*'' \<in> set (butlast (strip_percent ''a*b*'')) \<and>
   searchLabels search_store (Some 0) 50 [''at://x'', ''a*b*''] []
     = Inl (XRPCError 400 ''InvalidRequest''
             ''Only trailing wildcards are supported in uriPatterns'')"
proof -
  have h1: "''*'' \<notin> set [''at://x'', ''a*b*'']" by simp
  have h2: "''a*b*'' \<in> set [''at://x'', ''a*b*'']" by simp
  have h3: "CHR ''*'' \<in> set (butlast (strip_percent ''a*b*''))"
    by (simp add: strip_percent_def)
  from interior_wildcard_rejected [OF h1 h2 h3] h1 h2 h3 show ?thesis by simp
qed


text \<open>
  The \<open>LIKE\<close> pattern made from a pattern is the one made from the pattern without its
  \<open>%\<close> characters, and the example \<open>a%b\<close> finds the row \<open>ab\<close> and not the row \<open>a%b\<close>.
\<close>

lemma like_pattern_strip_percent: "like_pattern p = like_pattern (strip_percent p)"
  by (simp add: like_pattern_def escape_pattern_def strip_percent_def)

lemma percent_example:
  "map (uri \<circ> label_of) (labels percent_store) = [''ab'', ''a%b''] \<and>
   map_sum id (map (uri \<circ> label_of)) (searchLabels percent_store None 50 [''a%b''] [])
     = Inr [''ab'']"
  by (simp add: search_defs)

text \<open>
  Claim C10. An input on which the claim fails. The store holds the rows \<open>a_b\<close> and
  \<open>a\xb\<close>. The pattern \<open>a%_b\<close> is \<open>a_b\<close> without its \<open>%\<close>; the callback turns the \<open>_\<close> into
  a backslash and \<open>_\<close>, and the query has no \<open>ESCAPE\<close> clause, so \<open>LIKE\<close> reads the
  backslash as itself and the \<open>_\<close> as any one character: the search returns the row
  \<open>a\xb\<close> and not the row \<open>a_b\<close>, the pattern without its \<open>%\<close> characters.
\<close>

theorem underscore_escape_misses_literal_row:
  "strip_percent ''a%_b'' = ''a_b'' \<and>
   like_pattern ''a%_b'' = Inr [CHR ''a'', CHR 0x5C, CHR ''_'', CHR ''b''] \<and>
   map (uri \<circ> label_of) (labels underscore_store)
     = [''a_b'', [CHR ''a'', CHR 0x5C, CHR ''x'', CHR ''b'']] \<and>
   map_sum id (map (uri \<circ> label_of)) (searchLabels underscore_store None 50 [''a%_b''] [])
     = Inr [[CHR ''a'', CHR 0x5C, CHR ''x'', CHR ''b'']]"
  by (simp add: search_defs strip_percent_def)

text \<open>
  \<open>LIKE\<close> ends the pattern and the text at their first NUL: the pattern \<open>a\<close>, NUL
  matches the text \<open>a\<close>, NUL, \<open>%\<close>, and a text that differs before the NUL does not match.
\<close>

lemma like_stops_at_nul:
  "like [CHR ''a'', CHR 0x00] [CHR ''a'', CHR 0x00, CHR ''%''] \<and>
   like [CHR ''a'', CHR 0x00, CHR ''b''] ''a'' \<and>
   \<not> like [CHR ''a'', CHR 0x00] [CHR ''b'', CHR 0x00]"
  by (simp add: like_def c_string_def ascii_lower_def)

subsection \<open>\<open>emitEventHandler\<close>\<close>

text \<open>
  Claim C9. For a request that passes authentication and authorisation, a body without
  \<open>createdBy\<close> ends the handler with \<open>InvalidRequest\<close>, before the event type, the label
  values and the subject are looked at, and the server is as it was. (In the instance
  the same request with a \<open>createdBy\<close> succeeds.)
\<close>

theorem createdBy_required:
  assumes "parseAuthHeaderDid s req = Inr actor" and "auth s actor"
    and "createdBy (body req) = None"
  shows "emitEventHandler s req
           = (Inl (XRPCError 400 ''InvalidRequest'' ''Missing required field(s)''), s)"
  using assms by (simp add: emitEventHandler_def truthy_def split: option.splits)

theorem createdBy_required_witness:
  "parseAuthHeaderDid example_server (example_request (Some ''Bearer did:plc:labeler'') None)
     = Inr ''did:plc:labeler'' \<and>
   auth example_server ''did:plc:labeler'' \<and>
   createdBy (body (example_request (Some ''Bearer did:plc:labeler'') None)) = None \<and>
   fst (emitEventHandler example_server
         (example_request (Some ''Bearer did:plc:labeler'') None))
     = Inl (XRPCError 400 ''InvalidRequest'' ''Missing required field(s)'') \<and>
   map_sum id o_id (fst (emitEventHandler example_server
         (example_request (Some ''Bearer did:plc:labeler'') (Some ''did:plc:labeler''))))
     = Inr 1"
proof -
  have h1: "parseAuthHeaderDid example_server
      (example_request (Some ''Bearer did:plc:labeler'') None) = Inr ''did:plc:labeler''"
    by (simp add: handler_defs example_server_def)
  have h2: "auth example_server ''did:plc:labeler''" by (simp add: example_server_def)
  have h3: "createdBy (body (example_request (Some ''Bearer did:plc:labeler'') None)) = None"
    by (simp add: example_request_def)
  have ok: "map_sum id o_id (fst (emitEventHandler example_server
         (example_request (Some ''Bearer did:plc:labeler'') (Some ''did:plc:labeler''))))
     = Inr 1"
    by (simp add: handler_defs batch_defs eval_defs)
  from createdBy_required [OF h1 h2 h3] h1 h2 h3 ok show ?thesis by simp
qed

text \<open>The authentication comes first: without the header, the error is \<open>AuthRequired\<close>.\<close>

lemma unauthenticated_request:
  "fst (emitEventHandler example_server (example_request None None))
     = Inl (XRPCError 401 ''AuthRequired'' ''Authorization header is required'')"
  by (simp add: handler_defs)

end
